theory Spec2Isabelle
  imports Complex_Main "HOL-Library.Word"
begin

section \<open>Python primitives used by \<open>BERT_Ori.py\<close>\<close>

text \<open>
  The exceptions that the modelled functions can raise. \<open>EOFError\<close> is what
  \<open>np.load\<close> raises at the end of the file; the reader catches it.
\<close>

datatype py_error = ValueError | ZeroDivisionError | AssertionError | FileNotFoundError | EOFError

text \<open>
  \<open>range(start, stop, step)\<close> for a step different from zero: counting up while
  below \<open>stop\<close> for a positive step, counting down while above it for a negative one.
\<close>

function range_from :: "int \<Rightarrow> int \<Rightarrow> int \<Rightarrow> int list" where
  "range_from i stop step =
     (if 0 < step \<and> i < stop then i # range_from (i + step) stop step
      else if step < 0 \<and> stop < i then i # range_from (i + step) stop step
      else [])"
  by pat_completeness auto
termination
  by (relation "measure (\<lambda>(i, stop, step). nat (if 0 < step then stop - i else i - stop))") auto

declare range_from.simps [simp del]

text \<open>\<open>range\<close> raises \<open>ValueError\<close> when the step is zero.\<close>

definition py_range :: "int \<Rightarrow> int \<Rightarrow> int \<Rightarrow> py_error + int list" where
  "py_range start stop step =
     (if step = 0 then Inl ValueError else Inr (range_from start stop step))"

text \<open>
  The slice \<open>xs[i:j]\<close>: a negative bound counts from the end, both bounds are clipped
  to the list, and an empty interval gives the empty list. It never raises.
\<close>

definition py_slice :: "'a list \<Rightarrow> int \<Rightarrow> int \<Rightarrow> 'a list" where
  "py_slice xs i j =
     (let n = int (length xs);
          lo = (if i < 0 then max 0 (i + n) else min i n);
          hi = (if j < 0 then max 0 (j + n) else min j n)
      in take (nat (hi - lo)) (drop (nat lo) xs))"

section \<open>The chunker: \<open>tokenize_and_chunk\<close>\<close>

text \<open>
  The tokenizer is an external collaborator. The chunker uses its \<open>encode\<close>
  (called with \<open>add_special_tokens=True\<close>) and its two marker ids.
\<close>

record tokenizer =
  encode :: "string \<Rightarrow> int list"
  cls_token_id :: int
  sep_token_id :: int

definition MAX_SEQ_LENGTH :: int where
  "MAX_SEQ_LENGTH = 512"

definition tokenize_and_chunk :: "string \<Rightarrow> tokenizer \<Rightarrow> int \<Rightarrow> py_error + int list list" where
  "tokenize_and_chunk text tk max_length =
     (let tokenized = encode tk text;
          adjusted_max_length = max_length - 10
      in case py_range 0 (int (length tokenized)) adjusted_max_length of
           Inl e \<Rightarrow> Inl e
         | Inr starts \<Rightarrow>
             Inr (map (\<lambda>i. [cls_token_id tk]
                            @ py_slice tokenized i (i + adjusted_max_length)
                            @ [sep_token_id tk]) starts))"

text \<open>Stripping the prepended start marker and the appended end marker of a chunk.\<close>

definition unwrap :: "int list \<Rightarrow> int list" where
  "unwrap chunk = butlast (tl chunk)"

section \<open>The flattener: \<open>flatten_chunks\<close>\<close>

text \<open>
  The inner loop appends every chunk of one text to \<open>all_texts\<close> and the text's label
  to \<open>all_labels\<close>; the outer loop runs over \<open>zip(texts, labels)\<close>, which stops at
  the end of the shorter of the two sequences.
\<close>

fun flatten_text :: "'c list \<Rightarrow> 'l \<Rightarrow> 'c list \<times> 'l list \<Rightarrow> 'c list \<times> 'l list" where
  "flatten_text [] label (all_texts, all_labels) = (all_texts, all_labels)"
| "flatten_text (chunk # text) label (all_texts, all_labels) =
     flatten_text text label (all_texts @ [chunk], all_labels @ [label])"

fun flatten_loop :: "('c list \<times> 'l) list \<Rightarrow> 'c list \<times> 'l list \<Rightarrow> 'c list \<times> 'l list" where
  "flatten_loop [] acc = acc"
| "flatten_loop ((text, label) # rest) acc = flatten_loop rest (flatten_text text label acc)"

definition flatten_chunks :: "'c list list \<Rightarrow> 'l list \<Rightarrow> py_error + ('c list \<times> 'l list)" where
  "flatten_chunks texts labels =
     (let (all_texts, all_labels) = flatten_loop (zip texts labels) ([], [])
      in if length all_texts = length all_labels then Inr (all_texts, all_labels)
         else Inl AssertionError)"

section \<open>The aggregator: \<open>aggregate_predictions\<close>\<close>

text \<open>
  Predictions are modelled as real numbers. \<open>np.mean\<close> of an empty slice does not
  raise: it returns \<open>nan\<close> (with a warning).
\<close>

datatype np_float = Num real | NaN

definition np_mean :: "real list \<Rightarrow> np_float" where
  "np_mean xs = (if xs = [] then NaN else Num (sum_list xs / real (length xs)))"

fun aggregate_loop :: "'c list list \<Rightarrow> real list \<Rightarrow> int \<Rightarrow> np_float list \<Rightarrow> np_float list" where
  "aggregate_loop [] predictions idx aggregated_predictions = aggregated_predictions"
| "aggregate_loop (chunks # rest) predictions idx aggregated_predictions =
     (let num_chunks = int (length chunks)
      in aggregate_loop rest predictions (idx + num_chunks)
           (aggregated_predictions @ [np_mean (py_slice predictions idx (idx + num_chunks))]))"

definition aggregate_predictions :: "'c list list \<Rightarrow> real list \<Rightarrow> np_float list" where
  "aggregate_predictions text_chunks predictions = aggregate_loop text_chunks predictions 0 []"

section \<open>The embedding store\<close>

text \<open>
  One block of the store file is one array written by \<open>np.save\<close>: it carries its own
  dtype and shape, so \<open>np.load\<close> returns it as it was saved. The writer saves
  \<open>float32\<close> arrays of embeddings (one row of type \<open>'e\<close> per chunk) and \<open>int32\<close>
  arrays of labels. A file is the sequence of its blocks, or \<open>None\<close> when it does not
  exist.
\<close>

datatype 'e ndarray = F32 "'e list" | I32 "32 word list"

type_synonym 'e store_file = "'e ndarray list option"

text \<open>Opening in mode \<open>"ab"\<close> creates a missing file; \<open>np.save\<close> appends one block.\<close>

definition open_ab :: "'e store_file \<Rightarrow> 'e ndarray list" where
  "open_ab file = (case file of None \<Rightarrow> [] | Some blocks \<Rightarrow> blocks)"

definition np_save :: "'e ndarray list \<Rightarrow> 'e ndarray \<Rightarrow> 'e ndarray list" where
  "np_save f a = f @ [a]"

subsection \<open>The writer: \<open>vectorize_text\<close>\<close>

text \<open>
  \<open>vectorize\<close> stands for the external call
  \<open>bert_model.vectorize([tokenizer.decode(text)])\<close>. The loop runs over
  \<open>enumerate(zip(texts, labels))\<close> with the buffers \<open>embeddings\<close> and \<open>all_labels\<close>;
  the modulus raises \<open>ZeroDivisionError\<close> for a batch size of zero.
\<close>

fun vectorize_loop ::
  "('c \<Rightarrow> 'e) \<Rightarrow> int \<Rightarrow> int \<Rightarrow> int \<Rightarrow> ('c \<times> 32 word) list \<Rightarrow> 'e list \<Rightarrow> 32 word list
     \<Rightarrow> 'e store_file \<Rightarrow> py_error + ('e store_file \<times> 32 word list)" where
  "vectorize_loop vectorize num_texts batch_size i [] embeddings all_labels file =
     Inr (file, all_labels)"
| "vectorize_loop vectorize num_texts batch_size i ((text, label) # rest) embeddings all_labels file =
     (let embedding = vectorize text;
          embeddings = embeddings @ [embedding];
          all_labels = all_labels @ [label]
      in if batch_size = 0 then Inl ZeroDivisionError
         else if (i + 1) mod batch_size = 0 \<or> i + 1 = num_texts then
           (let batch_embeddings = F32 embeddings;
                batch_labels = I32 all_labels;
                f = np_save (np_save (open_ab file) batch_embeddings) batch_labels
            in vectorize_loop vectorize num_texts batch_size (i + 1) rest [] [] (Some f))
         else vectorize_loop vectorize num_texts batch_size (i + 1) rest embeddings all_labels file)"

definition vectorize_text ::
  "('c \<Rightarrow> 'e) \<Rightarrow> 'c list \<Rightarrow> 32 word list \<Rightarrow> 'e store_file \<Rightarrow> int
     \<Rightarrow> py_error + ('e store_file \<times> 32 word list)" where
  "vectorize_text vectorize texts labels file batch_size =
     (let num_texts = int (length texts)
      in vectorize_loop vectorize num_texts batch_size 0 (zip texts labels) [] [] file)"

subsection \<open>The reader: \<open>load_embeddings_and_labels\<close>\<close>

text \<open>\<open>np.load\<close> returns the next block and raises \<open>EOFError\<close> when none is left.\<close>

definition np_load :: "'e ndarray list \<Rightarrow> py_error + ('e ndarray \<times> 'e ndarray list)" where
  "np_load f = (case f of [] \<Rightarrow> Inl EOFError | a # rest \<Rightarrow> Inr (a, rest))"

text \<open>
  The \<open>while True\<close> loop: both loads are inside the \<open>try\<close>, so an \<open>EOFError\<close> of the
  second one leaves the loop as well, before anything of this round is appended.
\<close>

function load_loop ::
  "'e ndarray list \<Rightarrow> 'e ndarray list \<Rightarrow> 'e ndarray list \<Rightarrow> 'e ndarray list \<times> 'e ndarray list" where
  "load_loop f embeddings labels =
     (case np_load f of
        Inl e \<Rightarrow> (embeddings, labels)
      | Inr (batch_embeddings, f1) \<Rightarrow>
          (case np_load f1 of
             Inl e \<Rightarrow> (embeddings, labels)
           | Inr (batch_labels, f2) \<Rightarrow>
               load_loop f2 (embeddings @ [batch_embeddings]) (labels @ [batch_labels])))"
  by pat_completeness auto
termination
  by (relation "measure (\<lambda>(f, embeddings, labels). length f)")
     (auto simp: np_load_def split: list.splits)

declare load_loop.simps [simp del]

text \<open>
  \<open>np.concatenate(arrays, axis=0)\<close> raises \<open>ValueError\<close> for an empty list of
  arrays, and for arrays whose numbers of dimensions differ: an embedding array and a
  label array. All embedding rows have the one shape that the encoder returns, so
  embedding arrays always fit together along the first axis.
\<close>

fun np_concatenate :: "'e ndarray list \<Rightarrow> py_error + 'e ndarray" where
  "np_concatenate [] = Inl ValueError"
| "np_concatenate [a] = Inr a"
| "np_concatenate (a # arrays) =
     (case np_concatenate arrays of
        Inl e \<Rightarrow> Inl e
      | Inr b \<Rightarrow>
          (case (a, b) of
             (F32 xs, F32 ys) \<Rightarrow> Inr (F32 (xs @ ys))
           | (I32 xs, I32 ys) \<Rightarrow> Inr (I32 (xs @ ys))
           | _ \<Rightarrow> Inl ValueError))"

definition load_embeddings_and_labels :: "'e store_file \<Rightarrow> py_error + ('e ndarray \<times> 'e ndarray)" where
  "load_embeddings_and_labels file =
     (case file of
        None \<Rightarrow> Inl FileNotFoundError
      | Some f \<Rightarrow>
          (let (embeddings, labels) = load_loop f [] []
           in case np_concatenate embeddings of
                Inl e \<Rightarrow> Inl e
              | Inr es \<Rightarrow>
                  (case np_concatenate labels of
                     Inl e \<Rightarrow> Inl e
                   | Inr ls \<Rightarrow> Inr (es, ls))))"

text \<open>
  The layout of a store that holds the given batches: for every batch its embedding
  array followed by its label array.
\<close>

definition store_layout :: "('e list \<times> 32 word list) list \<Rightarrow> 'e ndarray list" where
  "store_layout batches = concat (map (\<lambda>(es, ls). [F32 es, I32 ls]) batches)"

section \<open>A tokenizer for concrete runs\<close>

text \<open>
  A tokenizer whose \<open>encode\<close> returns the given token ids for every text, with the
  marker ids 101 and 102 of the BERT vocabulary. It makes runs of the chunker on a
  chosen token-id sequence concrete.
\<close>

definition stub_tokenizer :: "int list \<Rightarrow> tokenizer" where
  "stub_tokenizer token_ids =
     \<lparr>encode = (\<lambda>text. token_ids), cls_token_id = 101, sep_token_id = 102\<rparr>"

section \<open>Facts about ranges and slices\<close>

lemma py_slice_window:
  assumes "0 \<le> i" and "0 \<le> k"
  shows "py_slice xs i (i + k) = take (nat k) (drop (nat i) xs)"
proof (cases "i < int (length xs)")
  case True
  show ?thesis
  proof (cases "i + k \<le> int (length xs)")
    case True
    with assms \<open>i < int (length xs)\<close> show ?thesis
      by (simp add: py_slice_def Let_def min_def)
  next
    case False
    with assms \<open>i < int (length xs)\<close> have "length (drop (nat i) xs) \<le> nat k"
      by simp
    moreover from assms \<open>i < int (length xs)\<close> False
    have "py_slice xs i (i + k) = drop (nat i) xs"
      by (simp add: py_slice_def Let_def min_def)
    ultimately show ?thesis by simp
  qed
next
  case False
  with assms show ?thesis
    by (simp add: py_slice_def Let_def min_def)
qed

lemma range_from_nonpos_step:
  "step < 0 \<Longrightarrow> i \<le> stop \<Longrightarrow> range_from i stop step = []"
  by (simp add: range_from.simps)

lemma range_from_lower:
  "0 < step \<Longrightarrow> j \<in> set (range_from i stop step) \<Longrightarrow> i \<le> j"
proof (induction i stop step rule: range_from.induct)
  case (1 i stop step)
  show ?case
  proof (cases "i < stop")
    case True
    with "1.prems" have "j = i \<or> j \<in> set (range_from (i + step) stop step)"
      by (subst (asm) range_from.simps) auto
    then show ?thesis
    proof
      assume "j = i" then show ?thesis by simp
    next
      assume "j \<in> set (range_from (i + step) stop step)"
      with "1.IH"(1) "1.prems"(1) True have "i + step \<le> j" by simp
      with "1.prems"(1) show ?thesis by simp
    qed
  next
    case False
    with "1.prems" show ?thesis
      by (subst (asm) range_from.simps) simp
  qed
qed

lemma concat_windows:
  "0 < step \<Longrightarrow> 0 \<le> i \<Longrightarrow>
   concat (map (\<lambda>j. take (nat step) (drop (nat j) xs)) (range_from i (int (length xs)) step))
     = drop (nat i) xs"
proof (induction i "int (length xs)" step rule: range_from.induct)
  case (1 i step)
  show ?case
  proof (cases "i < int (length xs)")
    case True
    have "nat (i + step) = nat i + nat step"
      using "1.prems" by (simp add: nat_add_distrib)
    moreover have "concat (map (\<lambda>j. take (nat step) (drop (nat j) xs))
                     (range_from (i + step) (int (length xs)) step)) = drop (nat (i + step)) xs"
      using "1.hyps"(1) "1.prems" True by simp
    ultimately show ?thesis
      using True "1.prems"
      by (subst range_from.simps) (simp add: add.commute [of "nat i"] flip: drop_drop)
  next
    case False
    with "1.prems" show ?thesis
      by (subst range_from.simps) simp
  qed
qed

lemma range_from_length:
  "0 < step \<Longrightarrow> i \<le> stop \<Longrightarrow>
   int (length (range_from i stop step)) = (stop - i + step - 1) div step"
proof (induction i stop step rule: range_from.induct)
  case (1 i stop step)
  show ?case
  proof (cases "i < stop")
    case True
    show ?thesis
    proof (cases "i + step \<le> stop")
      case True
      with "1.IH"(1) "1.prems" \<open>i < stop\<close>
      have "int (length (range_from (i + step) stop step)) = (stop - (i + step) + step - 1) div step"
        by simp
      moreover have "(stop - i + step - 1) div step = (stop - (i + step) + step - 1) div step + 1"
      proof -
        have "stop - i + step - 1 = (stop - (i + step) + step - 1) + step" by simp
        moreover have "((stop - (i + step) + step - 1) + step) div step
                         = (stop - (i + step) + step - 1) div step + 1"
          using "1.prems"(1) by (simp only: div_add_self2 [OF less_imp_neq [THEN not_sym]])
        ultimately show ?thesis by (simp only:)
      qed
      ultimately show ?thesis using \<open>i < stop\<close> "1.prems"
        by (subst range_from.simps) simp
    next
      case False
      then have "range_from (i + step) stop step = []"
        using "1.prems" by (subst range_from.simps) simp
      moreover have "(stop - i + step - 1) div step = 1"
      proof -
        have "0 \<le> stop - i - 1" "stop - i - 1 < step"
          using False \<open>i < stop\<close> by simp_all
        then have "(stop - i - 1) div step = 0"
          by (rule div_pos_pos_trivial)
        moreover have "((stop - i - 1) + step) div step = (stop - i - 1) div step + 1"
          using "1.prems"(1) by (simp only: div_add_self2 [OF less_imp_neq [THEN not_sym]])
        moreover have "stop - i + step - 1 = (stop - i - 1) + step" by simp
        ultimately show ?thesis by (simp only:)
      qed
      ultimately show ?thesis using \<open>i < stop\<close> "1.prems"
        by (subst range_from.simps) simp
    qed
  next
    case False
    with "1.prems" have "i = stop" by simp
    then show ?thesis using "1.prems"
      by (subst range_from.simps) (simp add: div_pos_pos_trivial)
  qed
qed

section \<open>Properties of the chunker\<close>

lemma chunk_starts:
  assumes "tokenize_and_chunk text tk max_length = Inr chunks"
  shows "max_length \<noteq> 10 \<and>
         chunks = map (\<lambda>i. [cls_token_id tk]
                            @ py_slice (encode tk text) i (i + (max_length - 10))
                            @ [sep_token_id tk])
                      (range_from 0 (int (length (encode tk text))) (max_length - 10))"
  using assms
  by (auto simp: tokenize_and_chunk_def py_range_def Let_def split: if_splits)

lemma chunk_windows:
  assumes "10 < max_length"
  shows "tokenize_and_chunk text tk max_length =
         Inr (map (\<lambda>i. cls_token_id tk # take (nat (max_length - 10)) (drop (nat i) (encode tk text))
                            @ [sep_token_id tk])
                  (range_from 0 (int (length (encode tk text))) (max_length - 10)))"
proof -
  have "\<And>i. i \<in> set (range_from 0 (int (length (encode tk text))) (max_length - 10)) \<Longrightarrow>
          py_slice (encode tk text) i (i + (max_length - 10))
            = take (nat (max_length - 10)) (drop (nat i) (encode tk text))"
    using assms range_from_lower [of "max_length - 10" _ 0] by (simp add: py_slice_window)
  then show ?thesis
    using assms by (simp add: tokenize_and_chunk_def py_range_def Let_def)
qed

lemma unwrap_wrapped: "unwrap (c # w @ [s]) = w"
  by (simp add: unwrap_def)

text \<open>
  Claim C4. Every chunk that \<open>tokenize_and_chunk\<close> returns is at most \<open>max_length\<close>
  ids long, starts with the start marker \<open>cls_token_id\<close> and ends with the end marker
  \<open>sep_token_id\<close>; the payload between the two markers is at most \<open>max_length - 10\<close>
  ids long.
\<close>

theorem chunk_bound:
  assumes "tokenize_and_chunk text tk max_length = Inr chunks" and "chunk \<in> set chunks"
  shows "int (length chunk) \<le> max_length
       \<and> chunk = cls_token_id tk # unwrap chunk @ [sep_token_id tk]
       \<and> hd chunk = cls_token_id tk \<and> last chunk = sep_token_id tk
       \<and> int (length (unwrap chunk)) \<le> max_length - 10"
proof -
  from chunk_starts [OF assms(1)]
  have ne: "max_length \<noteq> 10"
    and cs: "chunks = map (\<lambda>i. [cls_token_id tk]
                            @ py_slice (encode tk text) i (i + (max_length - 10))
                            @ [sep_token_id tk])
                      (range_from 0 (int (length (encode tk text))) (max_length - 10))"
    by simp_all
  have pos: "10 < max_length"
  proof (rule ccontr)
    assume "\<not> 10 < max_length"
    with ne have "max_length - 10 < 0" by simp
    then have "range_from 0 (int (length (encode tk text))) (max_length - 10) = []"
      by (simp add: range_from_nonpos_step)
    with cs assms(2) show False by simp
  qed
  from chunk_windows [OF pos, of "text" tk] assms
  obtain i where c: "chunk = cls_token_id tk # take (nat (max_length - 10)) (drop (nat i) (encode tk text))
                            @ [sep_token_id tk]"
    by auto
  have u: "unwrap chunk = take (nat (max_length - 10)) (drop (nat i) (encode tk text))"
    unfolding c by (rule unwrap_wrapped)
  have len: "int (length (unwrap chunk)) \<le> max_length - 10"
    unfolding u using pos by simp
  have "length chunk = length (take (nat (max_length - 10)) (drop (nat i) (encode tk text))) + 2"
    by (simp add: c)
  then have "length chunk = length (unwrap chunk) + 2"
    by (simp only: u)
  with len have "int (length chunk) \<le> max_length" by simp
  moreover have "chunk = cls_token_id tk # unwrap chunk @ [sep_token_id tk]"
    unfolding u by (rule c)
  moreover have "hd chunk = cls_token_id tk" "last chunk = sep_token_id tk"
    unfolding c by simp_all
  ultimately show ?thesis using len by simp
qed

text \<open>
  Claim C3 (amended). For every token-id sequence and every \<open>max_length\<close> greater than
  the margin of 10, \<open>tokenize_and_chunk\<close> returns chunks, and stripping the start and end
  marker of each chunk and concatenating the payloads in chunk order gives back the
  token-id sequence.
\<close>

theorem chunk_roundtrip:
  assumes "10 < max_length"
  shows "\<exists>chunks. tokenize_and_chunk text tk max_length = Inr chunks
                 \<and> concat (map unwrap chunks) = encode tk text"
proof -
  have "concat (map unwrap (map (\<lambda>i. cls_token_id tk # take (nat (max_length - 10)) (drop (nat i) (encode tk text))
                            @ [sep_token_id tk])
                  (range_from 0 (int (length (encode tk text))) (max_length - 10))))
        = concat (map (\<lambda>i. take (nat (max_length - 10)) (drop (nat i) (encode tk text)))
                  (range_from 0 (int (length (encode tk text))) (max_length - 10)))"
    by (simp add: comp_def unwrap_wrapped)
  also have "\<dots> = drop (nat 0) (encode tk text)"
    using assms by (intro concat_windows) simp_all
  finally show ?thesis
    using chunk_windows [OF assms, of "text" tk] by simp
qed

lemma chunk_number:
  assumes "10 < max_length"
  shows "\<exists>chunks. tokenize_and_chunk text tk max_length = Inr chunks
           \<and> int (length chunks) = (int (length (encode tk text)) + (max_length - 10) - 1) div (max_length - 10)
           \<and> (chunks = [] \<longleftrightarrow> encode tk text = [])
           \<and> (encode tk text \<noteq> [] \<and> int (length (encode tk text)) \<le> max_length - 10
                  \<longrightarrow> length chunks = 1)"
proof -
  let ?n = "int (length (encode tk text))" and ?a = "max_length - 10"
  let ?r = "range_from 0 ?n ?a"
  have len: "int (length ?r) = (?n + ?a - 1) div ?a"
    using assms range_from_length [of ?a 0 ?n] by simp
  have ne: "?r \<noteq> []" if "encode tk text \<noteq> []"
    using that assms by (subst range_from.simps) simp
  have one: "length ?r = 1" if "encode tk text \<noteq> []" "?n \<le> ?a"
  proof -
    have "range_from (0 + ?a) ?n ?a = []"
      using that assms by (subst range_from.simps) simp
    then show ?thesis using that assms by (subst range_from.simps) simp
  qed
  have emp: "?r = []" if "encode tk text = []"
    using that assms by (subst range_from.simps) simp
  show ?thesis
    using chunk_windows [OF assms, of "text" tk] len ne one emp by auto
qed

lemma chunk_elements:
  assumes "10 < max_length"
    and "tokenize_and_chunk text tk max_length = Inr chunks" and "chunk \<in> set chunks"
  shows "set chunk \<subseteq> {cls_token_id tk, sep_token_id tk} \<union> set (encode tk text)"
proof -
  from chunk_windows [OF assms(1), of "text" tk] assms(2,3)
  obtain i where "chunk = cls_token_id tk # take (nat (max_length - 10)) (drop (nat i) (encode tk text))
                            @ [sep_token_id tk]"
    by auto
  moreover have "set (take (nat (max_length - 10)) (drop (nat i) (encode tk text)))
                   \<subseteq> set (encode tk text)"
    using set_take_subset set_drop_subset by (rule subset_trans)
  ultimately show ?thesis by auto
qed

text \<open>
  Claim C8 (amended). The chunker receives what \<open>encode\<close> returns with
  \<open>add_special_tokens=True\<close>: the ids of the text between the tokenizer's own start
  and end marker, so never the empty sequence. For every such sequence and
  \<open>max_length\<close> greater than 10 the chunker returns at least one chunk, namely
  \<open>\<lceil>n / (max_length - 10)\<rceil>\<close> chunks for \<open>n\<close> raw ids, and exactly one chunk
  when the sequence is no longer than the payload length \<open>max_length - 10\<close>. For a
  document without tokens every chunk holds marker ids only, and from
  \<open>max_length = 12\<close> on it is the single chunk of the two raw markers inside the two
  wrapping markers.
\<close>

theorem chunk_count:
  assumes "10 < max_length"
    and "encode tk text = cls_token_id tk # ids @ [sep_token_id tk]"
  shows "\<exists>chunks. tokenize_and_chunk text tk max_length = Inr chunks
           \<and> chunks \<noteq> []
           \<and> int (length chunks)
               = (int (length (encode tk text)) + (max_length - 10) - 1) div (max_length - 10)
           \<and> (int (length (encode tk text)) \<le> max_length - 10 \<longrightarrow> length chunks = 1)
           \<and> (ids = [] \<longrightarrow>
                 (\<forall>chunk \<in> set chunks. set chunk \<subseteq> {cls_token_id tk, sep_token_id tk})
               \<and> (12 \<le> max_length \<longrightarrow>
                    chunks = [[cls_token_id tk, cls_token_id tk, sep_token_id tk, sep_token_id tk]]))"
proof -
  have ne: "encode tk text \<noteq> []"
    using assms(2) by simp
  from chunk_number [OF assms(1), of "text" tk]
  obtain chunks where c: "tokenize_and_chunk text tk max_length = Inr chunks"
    "int (length chunks)
       = (int (length (encode tk text)) + (max_length - 10) - 1) div (max_length - 10)"
    "chunks = [] \<longleftrightarrow> encode tk text = []"
    "encode tk text \<noteq> [] \<and> int (length (encode tk text)) \<le> max_length - 10
       \<longrightarrow> length chunks = 1"
    by blast
  have markers: "set chunk \<subseteq> {cls_token_id tk, sep_token_id tk}"
    if "ids = []" "chunk \<in> set chunks" for chunk
    using chunk_elements [OF assms(1) c(1) that(2)] assms(2) that(1) by auto
  have single: "chunks = [[cls_token_id tk, cls_token_id tk, sep_token_id tk, sep_token_id tk]]"
    if "ids = []" "12 \<le> max_length"
  proof -
    have t: "encode tk text = [cls_token_id tk, sep_token_id tk]"
      using assms(2) that(1) by simp
    have "range_from (0 + (max_length - 10)) 2 (max_length - 10) = []"
      using that(2) by (subst range_from.simps) simp
    then have "range_from 0 2 (max_length - 10) = [0]"
      using that(2) by (subst range_from.simps) simp
    with chunk_windows [OF assms(1), of "text" tk] c(1) that(2) show ?thesis
      by (simp add: t)
  qed
  show ?thesis
    using c(1,2,4) c(3) ne markers single by (intro exI [of _ chunks]) blast
qed

lemma stub_simps:
  "encode (stub_tokenizer ts) t = ts" "cls_token_id (stub_tokenizer ts) = 101" "sep_token_id (stub_tokenizer ts) = 102"
  by (simp_all add: stub_tokenizer_def)

lemmas chunk_eval = tokenize_and_chunk_def py_range_def py_slice_def Let_def range_from.simps
  unwrap_def stub_simps

text \<open>
  The bound at a run with a payload length of 3: six raw ids give two chunks.
\<close>

theorem chunk_bound_witness:
  "tokenize_and_chunk ''berita'' (stub_tokenizer [101, 7, 8, 9, 10, 102]) 13
     = Inr [[101, 101, 7, 8, 102], [101, 9, 10, 102, 102]]
   \<and> [101, 9, 10, 102, 102] \<in> set [[101, 101, 7, 8, 102], [101, 9, 10, 102, 102 :: int]]
   \<and> int (length [101, 9, 10, 102, 102 :: int]) \<le> 13
   \<and> hd [101, 9, 10, 102, 102 :: int] = 101 \<and> last [101, 9, 10, 102, 102 :: int] = 102
   \<and> unwrap [101, 9, 10, 102, 102] = [9, 10, 102]
   \<and> int (length (unwrap [101, 9, 10, 102, 102])) \<le> 13 - 10"
proof -
  have run: "tokenize_and_chunk ''berita'' (stub_tokenizer [101, 7, 8, 9, 10, 102]) 13
     = Inr [[101, 101, 7, 8, 102], [101, 9, 10, 102, 102]]"
    by (simp add: chunk_eval)
  have mem: "[101, 9, 10, 102, 102] \<in> set [[101, 101, 7, 8, 102], [101, 9, 10, 102, 102 :: int]]"
    by simp
  show ?thesis
    using run mem chunk_bound [OF run mem] by (simp add: unwrap_def)
qed

text \<open>
  Claim C3, as stated for every \<open>max_length\<close>, fails below the margin: with
  \<open>max_length = 5\<close> the step of the range is negative and no chunk is produced, so the
  concatenation is empty while the token sequence is not; with \<open>max_length = 10\<close> the
  step is zero and \<open>range\<close> raises \<open>ValueError\<close>.
\<close>

theorem chunk_roundtrip_counterexample:
  "tokenize_and_chunk ''berita'' (stub_tokenizer [101, 7, 102]) 5 = Inr []
   \<and> concat (map unwrap []) \<noteq> encode (stub_tokenizer [101, 7, 102]) ''berita''
   \<and> tokenize_and_chunk ''berita'' (stub_tokenizer [101, 7, 102]) 10 = Inl ValueError"
  by (simp add: chunk_eval)

text \<open>
  The round trip at a run with a payload length of 3.
\<close>

theorem chunk_roundtrip_witness:
  "(10::int) < 13
   \<and> tokenize_and_chunk ''berita'' (stub_tokenizer [101, 7, 8, 9, 10, 102]) 13
     = Inr [[101, 101, 7, 8, 102], [101, 9, 10, 102, 102]]
   \<and> concat (map unwrap [[101, 101, 7, 8, 102], [101, 9, 10, 102, 102]])
     = encode (stub_tokenizer [101, 7, 8, 9, 10, 102]) ''berita''"
proof -
  have h: "(10::int) < 13" by simp
  show ?thesis
    using h chunk_roundtrip [OF h, of "''berita''" "stub_tokenizer [101, 7, 8, 9, 10, 102]"]
    by (simp add: chunk_eval)
qed

text \<open>
  Claim C8, as stated, fails when \<open>max_length\<close> does not exceed the margin. The
  encoding of a document without tokens is the two markers that the tokenizer adds
  itself; with \<open>max_length = 8\<close> the step of the range is negative and no chunk is
  produced, and with \<open>max_length = 10\<close> the step is zero and \<open>range\<close> raises
  \<open>ValueError\<close>.
\<close>

theorem chunk_count_counterexample:
  "encode (stub_tokenizer [101, 102]) [] = [101, 102]
   \<and> tokenize_and_chunk [] (stub_tokenizer [101, 102]) 8 = Inr []
   \<and> tokenize_and_chunk [] (stub_tokenizer [101, 102]) 10 = Inl ValueError"
  by (simp add: chunk_eval)

text \<open>
  The count at the default \<open>max_length\<close> for a document without tokens: one chunk of
  four marker ids.
\<close>

theorem chunk_count_witness:
  "(10::int) < MAX_SEQ_LENGTH
   \<and> encode (stub_tokenizer [101, 102]) []
       = cls_token_id (stub_tokenizer [101, 102]) # [] @ [sep_token_id (stub_tokenizer [101, 102])]
   \<and> int (length (encode (stub_tokenizer [101, 102]) [])) \<le> MAX_SEQ_LENGTH - 10
   \<and> (12::int) \<le> MAX_SEQ_LENGTH
   \<and> tokenize_and_chunk [] (stub_tokenizer [101, 102]) MAX_SEQ_LENGTH
       = Inr [[101, 101, 102, 102]]
   \<and> length [[101, 101, 102, 102 :: int]] = 1"
proof -
  have h1: "(10::int) < MAX_SEQ_LENGTH" by (simp add: MAX_SEQ_LENGTH_def)
  have h2: "encode (stub_tokenizer [101, 102]) []
       = cls_token_id (stub_tokenizer [101, 102]) # [] @ [sep_token_id (stub_tokenizer [101, 102])]"
    by (simp add: stub_simps)
  show ?thesis
    using h1 h2 chunk_count [OF h1 h2]
    by (simp add: chunk_eval MAX_SEQ_LENGTH_def)
qed

section \<open>Properties of the flattener\<close>

lemma flatten_text_eq:
  "flatten_text text label (all_texts, all_labels)
     = (all_texts @ text, all_labels @ replicate (length text) label)"
  by (induction "text" arbitrary: all_texts all_labels) (simp_all add: replicate_app_Cons_same)

lemma flatten_loop_eq:
  "flatten_loop pairs (all_texts, all_labels)
     = (all_texts @ concat (map fst pairs),
        all_labels @ concat (map (\<lambda>(text, label). replicate (length text) label) pairs))"
  by (induction pairs arbitrary: all_texts all_labels) (auto simp: flatten_text_eq)

lemma length_flattened:
  "length (concat (map (\<lambda>(text, label). replicate (length text) label) pairs))
     = length (concat (map fst pairs))"
  by (induction pairs) auto

lemma flatten_chunks_eq:
  "flatten_chunks texts labels
     = Inr (concat (map fst (zip texts labels)),
            concat (map (\<lambda>(text, label). replicate (length text) label) (zip texts labels)))"
  by (simp add: flatten_chunks_def flatten_loop_eq length_flattened)

lemma nth_concat_offset:
  "j < length xss \<Longrightarrow> k < length (xss ! j) \<Longrightarrow>
   concat xss ! (sum_list (map length (take j xss)) + k) = xss ! j ! k"
proof (induction xss arbitrary: j)
  case Nil
  then show ?case by simp
next
  case (Cons xs xss)
  show ?case
  proof (cases j)
    case 0
    with Cons.prems show ?thesis by (simp add: nth_append)
  next
    case (Suc j')
    with Cons.prems have "concat xss ! (sum_list (map length (take j' xss)) + k) = xss ! j' ! k"
      by (intro Cons.IH) simp_all
    with Suc show ?thesis
      by (simp add: nth_append add.assoc)
  qed
qed

text \<open>
  Claim C2. For inputs of equal length \<open>flatten_chunks\<close> returns two parallel sequences
  whose common length is the sum of the lengths of the chunk sets; the chunks of
  \<open>texts ! j\<close> appear contiguously, in their stored order and after the chunks of all
  earlier chunk sets, each paired with \<open>labels ! j\<close>.
\<close>

theorem flatten_alignment:
  assumes "length texts = length labels"
  shows "\<exists>chunks chunk_labels.
           flatten_chunks texts labels = Inr (chunks, chunk_labels)
         \<and> length chunks = sum_list (map length texts)
         \<and> length chunk_labels = sum_list (map length texts)
         \<and> chunks = concat texts
         \<and> (\<forall>j < length texts. \<forall>k < length (texts ! j).
               chunks ! (sum_list (map length (take j texts)) + k) = texts ! j ! k
             \<and> chunk_labels ! (sum_list (map length (take j texts)) + k) = labels ! j)"
proof -
  let ?reps = "map (\<lambda>(text, label). replicate (length text) label) (zip texts labels)"
  have fst: "map fst (zip texts labels) = texts"
    using assms by simp
  have lens: "map length ?reps = map length texts"
    using assms by (induction texts labels rule: list_induct2) simp_all
  have run: "flatten_chunks texts labels = Inr (concat texts, concat ?reps)"
    by (simp add: flatten_chunks_eq fst)
  have len1: "length (concat texts) = sum_list (map length texts)"
    by (simp add: length_concat)
  have len2: "length (concat ?reps) = sum_list (map length texts)"
    by (simp only: length_concat lens)
  have idx: "concat texts ! (sum_list (map length (take j texts)) + k) = texts ! j ! k
           \<and> concat ?reps ! (sum_list (map length (take j texts)) + k) = labels ! j"
    if "j < length texts" "k < length (texts ! j)" for j k
  proof -
    have rj: "?reps ! j = replicate (length (texts ! j)) (labels ! j)"
      using that assms by simp
    have "concat ?reps ! (sum_list (map length (take j ?reps)) + k) = ?reps ! j ! k"
      using that assms by (intro nth_concat_offset) (simp_all add: rj)
    moreover have "map length (take j ?reps) = map length (take j texts)"
      by (simp only: lens flip: take_map)
    ultimately have "concat ?reps ! (sum_list (map length (take j texts)) + k) = labels ! j"
      using that by (simp add: rj)
    with nth_concat_offset [OF that] show ?thesis by simp
  qed
  show ?thesis
    using run len1 len2 idx by blast
qed

text \<open>
  The alignment for two documents with two chunks and one chunk.
\<close>

theorem flatten_alignment_witness:
  "length [[[101, 7, 102], [101, 8, 102]], [[101, 9, 102 :: int]]] = length [1, 0 :: int]
   \<and> flatten_chunks [[[101, 7, 102], [101, 8, 102]], [[101, 9, 102 :: int]]] [1, 0 :: int]
       = Inr ([[101, 7, 102], [101, 8, 102], [101, 9, 102]], [1, 1, 0])"
proof -
  have h: "length [[[101, 7, 102], [101, 8, 102]], [[101, 9, 102 :: int]]] = length [1, 0 :: int]"
    by simp
  show ?thesis
    using h flatten_alignment [OF h] by (simp add: flatten_chunks_def)
qed

text \<open>
  Claim C5, as stated, fails: two chunk sets with one label are flattened without any
  error; the second chunk set is dropped.
\<close>

theorem flatten_mismatch_counterexample:
  "length [[[101, 7, 102 :: int]], [[101, 8, 102]]] \<noteq> length [1 :: int]
   \<and> flatten_chunks [[[101, 7, 102 :: int]], [[101, 8, 102]]] [1 :: int]
       = Inr ([[101, 7, 102]], [1])"
  by (simp add: flatten_chunks_def)

text \<open>
  Claim C5 (amended). \<open>flatten_chunks\<close> never fails on a length mismatch: \<open>zip\<close> pairs
  chunk sets and labels up to the length of the shorter sequence, the surplus of the
  longer one is ignored, and the result is that of flattening the two common prefixes.
\<close>

theorem flatten_mismatch_truncates:
  "flatten_chunks texts labels
     = Inr (concat (take (length labels) texts),
            concat (map (\<lambda>(text, label). replicate (length text) label) (zip texts labels)))
   \<and> flatten_chunks texts labels
     = flatten_chunks (take (min (length texts) (length labels)) texts)
                      (take (min (length texts) (length labels)) labels)"
proof -
  have "map fst (zip texts labels) = take (length labels) texts"
    by (simp add: map_fst_zip_take min_def)
  moreover have "zip (take (min (length texts) (length labels)) texts)
                     (take (min (length texts) (length labels)) labels) = zip texts labels"
    by (simp flip: take_zip)
  ultimately show ?thesis
    by (simp only: flatten_chunks_eq simp_thms)
qed

section \<open>Properties of the aggregator\<close>

lemma aggregate_loop_eq:
  "0 \<le> idx \<Longrightarrow>
   aggregate_loop text_chunks predictions idx acc
     = acc @ map (\<lambda>i. np_mean (take (length (text_chunks ! i))
                         (drop (nat idx + sum_list (map length (take i text_chunks))) predictions)))
                 [0..<length text_chunks]"
proof (induction text_chunks arbitrary: idx acc)
  case Nil
  then show ?case by simp
next
  case (Cons chunks rest)
  have step: "aggregate_loop (chunks # rest) predictions idx acc
      = aggregate_loop rest predictions (idx + int (length chunks))
          (acc @ [np_mean (take (length chunks) (drop (nat idx) predictions))])"
    using Cons.prems by (simp add: Let_def py_slice_window)
  have idx': "nat (idx + int (length chunks)) = nat idx + length chunks"
    using Cons.prems by (simp add: nat_add_distrib)
  have "0 \<le> idx + int (length chunks)"
    using Cons.prems by simp
  from Cons.IH [OF this] show ?case
    unfolding step idx'
    by (simp add: map_upt_Suc add.assoc del: upt_Suc)
qed

lemma aggregate_predictions_eq:
  "aggregate_predictions text_chunks predictions
     = map (\<lambda>i. np_mean (take (length (text_chunks ! i))
                   (drop (sum_list (map length (take i text_chunks))) predictions)))
           [0..<length text_chunks]"
  by (simp add: aggregate_predictions_def aggregate_loop_eq)

lemma sum_list_take_Suc_le:
  fixes ns :: "nat list"
  assumes "i < length ns"
  shows "sum_list (take i ns) + ns ! i \<le> sum_list ns"
proof -
  have "sum_list ns = sum_list (take (Suc i) ns) + sum_list (drop (Suc i) ns)"
    by (simp only: append_take_drop_id flip: sum_list_append)
  also have "take (Suc i) ns = take i ns @ [ns ! i]"
    using assms by (rule take_Suc_conv_app_nth)
  finally show ?thesis by simp
qed

text \<open>
  Claim C9. The chunk counts of the claim are the lengths of the chunk sets that
  \<open>aggregate_predictions\<close> receives. When they sum to the number of predictions, the
  result has one value per document, in document order; the slice of document \<open>i\<close>
  starts right after the slices of the documents before it and has exactly as many
  predictions as the document has chunks, and the value is the arithmetic mean of that
  slice (\<open>nan\<close>, as \<open>np.mean\<close> gives it, for a document without chunks). In
  particular the counts 2 and 3 with the predictions 0.1, 0.9, 0.2, 0.4, 0.6 give 0.5
  and 0.4. Predictions are real numbers here, so the means are exact.
\<close>

theorem aggregate_means:
  assumes "sum_list (map length text_chunks) = length predictions"
  shows "length (aggregate_predictions text_chunks predictions) = length text_chunks
       \<and> (\<forall>i < length text_chunks.
            length (take (length (text_chunks ! i))
                     (drop (sum_list (map length (take i text_chunks))) predictions))
              = length (text_chunks ! i)
          \<and> aggregate_predictions text_chunks predictions ! i
              = (if text_chunks ! i = [] then NaN
                 else Num (sum_list (take (length (text_chunks ! i))
                                      (drop (sum_list (map length (take i text_chunks))) predictions))
                           / real (length (text_chunks ! i)))))
       \<and> aggregate_predictions [[a, b], [c, d, e]] [0.1, 0.9, 0.2, 0.4, 0.6] = [Num 0.5, Num 0.4]"
proof -
  have len: "length (aggregate_predictions text_chunks predictions) = length text_chunks"
    by (simp add: aggregate_predictions_eq)
  have slice: "length (take (length (text_chunks ! i))
                     (drop (sum_list (map length (take i text_chunks))) predictions))
              = length (text_chunks ! i)"
    if "i < length text_chunks" for i
  proof -
    have "sum_list (take i (map length text_chunks)) + map length text_chunks ! i
            \<le> sum_list (map length text_chunks)"
      using that by (intro sum_list_take_Suc_le) simp
    with that assms show ?thesis
      by (simp add: take_map)
  qed
  have val: "aggregate_predictions text_chunks predictions ! i
              = (if text_chunks ! i = [] then NaN
                 else Num (sum_list (take (length (text_chunks ! i))
                                      (drop (sum_list (map length (take i text_chunks))) predictions))
                           / real (length (text_chunks ! i))))"
    if "i < length text_chunks" for i
  proof -
    let ?s = "take (length (text_chunks ! i))
                (drop (sum_list (map length (take i text_chunks))) predictions)"
    have "aggregate_predictions text_chunks predictions ! i = np_mean ?s"
      using that by (simp add: aggregate_predictions_eq)
    moreover have "length ?s = length (text_chunks ! i)"
      using that by (rule slice)
    ultimately show ?thesis
      by (auto simp: np_mean_def)
  qed
  have ex: "aggregate_predictions [[a, b], [c, d, e]] [0.1, 0.9, 0.2, 0.4, 0.6] = [Num 0.5, Num 0.4]"
    by (simp add: aggregate_predictions_def py_slice_def np_mean_def Let_def)
  show ?thesis
    using len slice val ex by blast
qed

text \<open>
  The means for two documents of two and three chunks.
\<close>

theorem aggregate_means_witness:
  "sum_list (map length [[[101, 7, 102], [101, 8, 102]], [[101, 9, 102], [101, 10, 102], [101, 11, 102 :: int]]])
     = length [0.1, 0.9, 0.2, 0.4, 0.6 :: real]
   \<and> aggregate_predictions
        [[[101, 7, 102], [101, 8, 102]], [[101, 9, 102], [101, 10, 102], [101, 11, 102 :: int]]]
        [0.1, 0.9, 0.2, 0.4, 0.6]
       = [Num 0.5, Num 0.4]"
proof -
  have h: "sum_list (map length [[[101, 7, 102], [101, 8, 102]], [[101, 9, 102], [101, 10, 102], [101, 11, 102 :: int]]])
     = length [0.1, 0.9, 0.2, 0.4, 0.6 :: real]"
    by simp
  show ?thesis
    using h aggregate_means [OF h]
    by (simp add: aggregate_predictions_def py_slice_def np_mean_def Let_def)
qed

text \<open>
  Claim C7, as stated, fails: for two documents of two chunks each and three
  predictions nothing is raised; the second mean is taken over the one prediction that
  is left.
\<close>

theorem aggregate_shape_counterexample:
  "sum_list (map length [[[101, 7, 102], [101, 8, 102]], [[101, 9, 102], [101, 10, 102 :: int]]])
     \<noteq> length [0.1, 0.2, 0.3 :: real]
   \<and> aggregate_predictions
        [[[101, 7, 102], [101, 8, 102]], [[101, 9, 102], [101, 10, 102 :: int]]]
        [0.1, 0.2, 0.3]
       = [Num 0.15, Num 0.3]"
  by (simp add: aggregate_predictions_def py_slice_def np_mean_def Let_def)

text \<open>
  Claim C7 (amended). \<open>aggregate_predictions\<close> checks no shape and never fails: for
  any chunk sets and predictions it returns one value per document, the \<open>np.mean\<close> of
  that part of the document's slice that lies within the predictions (\<open>nan\<close> when
  nothing of it does), and predictions beyond the last slice are ignored. In particular
  the counts 2 and 2 with the predictions 0.1, 0.2, 0.3 give 0.15 and 0.3.
\<close>

theorem aggregate_unchecked:
  "aggregate_predictions text_chunks predictions
     = map (\<lambda>i. np_mean (take (length (text_chunks ! i))
                   (drop (sum_list (map length (take i text_chunks))) predictions)))
           [0..<length text_chunks]
   \<and> length (aggregate_predictions text_chunks predictions) = length text_chunks
   \<and> aggregate_predictions [[a, b], [c, d]] [0.1, 0.2, 0.3] = [Num 0.15, Num 0.3]
   \<and> aggregate_predictions [[a, b], [c, d]] [0.1, 0.2] = [Num 0.15, NaN]"
proof -
  have "aggregate_predictions [[a, b], [c, d]] [0.1, 0.2, 0.3] = [Num 0.15, Num 0.3]"
    by (simp add: aggregate_predictions_def py_slice_def np_mean_def Let_def)
  moreover have "aggregate_predictions [[a, b], [c, d]] [0.1, 0.2] = [Num 0.15, NaN]"
    by (simp add: aggregate_predictions_def py_slice_def np_mean_def Let_def)
  ultimately show ?thesis
    by (simp add: aggregate_predictions_eq)
qed

section \<open>Properties of the embedding store\<close>

lemma store_layout_Nil: "store_layout [] = []"
  by (simp add: store_layout_def)

lemma store_layout_Cons:
  "store_layout ((es, ls) # batches) = F32 es # I32 ls # store_layout batches"
  by (simp add: store_layout_def)

lemma store_layout_append:
  "store_layout (xs @ ys) = store_layout xs @ store_layout ys"
  by (simp add: store_layout_def)

lemma load_loop_short:
  "length tail \<le> 1 \<Longrightarrow> load_loop tail embeddings labels = (embeddings, labels)"
  by (subst load_loop.simps) (auto simp: np_load_def split: list.splits)

lemma load_loop_pair:
  "load_loop (a # b # f) embeddings labels = load_loop f (embeddings @ [a]) (labels @ [b])"
  by (subst load_loop.simps) (simp add: np_load_def)

lemma load_loop_layout:
  "length tail \<le> 1 \<Longrightarrow>
   load_loop (store_layout batches @ tail) embeddings labels
     = (embeddings @ map (\<lambda>(es, ls). F32 es) batches, labels @ map (\<lambda>(es, ls). I32 ls) batches)"
proof (induction batches arbitrary: embeddings labels)
  case Nil
  then show ?case by (simp add: store_layout_Nil load_loop_short)
next
  case (Cons batch batches)
  obtain es ls where batch: "batch = (es, ls)" by (cases batch)
  show ?case
    unfolding batch using Cons.IH [OF Cons.prems]
    by (simp add: store_layout_Cons load_loop_pair)
qed

lemma np_concatenate_F32:
  "xss \<noteq> [] \<Longrightarrow> np_concatenate (map F32 xss) = Inr (F32 (concat xss))"
  by (induction xss rule: induct_list012) simp_all

lemma np_concatenate_I32:
  "xss \<noteq> [] \<Longrightarrow> np_concatenate (map I32 xss) = Inr (I32 (concat xss))"
  by (induction xss rule: induct_list012) simp_all

lemma load_layout:
  fixes batches :: "('e list \<times> 32 word list) list"
  assumes "batches \<noteq> []" and "length tail \<le> 1"
  shows "load_embeddings_and_labels (Some (store_layout batches @ tail))
           = Inr (F32 (concat (map fst batches)), I32 (concat (map snd batches)))"
proof -
  have e: "map (\<lambda>(es, ls). F32 es) batches = map F32 (map fst batches)"
    by (simp add: case_prod_beta comp_def)
  have l: "map (\<lambda>(es, ls). I32 ls) batches = map I32 (map snd batches)"
    by (simp add: case_prod_beta comp_def)
  have "load_loop (store_layout batches @ tail) [] []
          = (map F32 (map fst batches), map I32 (map snd batches))"
    using load_loop_layout [OF assms(2), of batches "[]" "[]"] by (simp only: e l append_Nil)
  moreover have "np_concatenate (map F32 (map fst batches)) = Inr (F32 (concat (map fst batches)))"
    using assms(1) by (intro np_concatenate_F32) simp
  moreover have "np_concatenate (map I32 (map snd batches))
                   = (Inr (I32 (concat (map snd batches))) :: py_error + 'e ndarray)"
    using assms(1) by (intro np_concatenate_I32) simp
  ultimately show ?thesis
    by (simp add: load_embeddings_and_labels_def)
qed

lemma open_ab_Some: "open_ab (Some f) = f"
  by (simp add: open_ab_def)

lemma int_mod_succ:
  fixes i b :: int
  assumes "0 < b"
  shows "(i + 1) mod b = (if i mod b + 1 = b then 0 else i mod b + 1)"
proof -
  have "(i + 1) mod b = (i mod b + 1) mod b"
    by (simp add: mod_add_left_eq)
  moreover have "0 \<le> i mod b" "i mod b < b"
    using assms by simp_all
  ultimately show ?thesis
    by (auto simp: mod_pos_pos_trivial)
qed

text \<open>
  The loop invariant of the writer: the buffers hold \<open>i mod batch_size\<close> records. From
  any such state with input left, the loop appends whole batches to the file: every
  batch but the last holds \<open>batch_size\<close> records, the last one at least one and at
  most \<open>batch_size\<close>.
\<close>

lemma vectorize_loop_layout:
  assumes "0 < batch_size" and "rest \<noteq> []" and "i + int (length rest) = num_texts"
    and "int (length embeddings) = i mod batch_size" and "length all_labels = length embeddings"
  shows "\<exists>batches. batches \<noteq> []
           \<and> vectorize_loop vectorize num_texts batch_size i rest embeddings all_labels file
               = Inr (Some (open_ab file @ store_layout batches), [])
           \<and> concat (map fst batches) = embeddings @ map (\<lambda>(t, l). vectorize t) rest
           \<and> concat (map snd batches) = all_labels @ map snd rest
           \<and> (\<forall>(es, ls) \<in> set (butlast batches).
                 int (length es) = batch_size \<and> length ls = length es)
           \<and> 0 < length (fst (last batches))
           \<and> int (length (fst (last batches))) \<le> batch_size
           \<and> length (snd (last batches)) = length (fst (last batches))"
  using assms
proof (induction rest arbitrary: i embeddings all_labels "file")
  case Nil
  then show ?case by simp
next
  case (Cons pair rest)
  obtain t l where pair: "pair = (t, l)" by (cases pair)
  let ?E = "embeddings @ [vectorize t]" and ?L = "all_labels @ [l]"
  have bs: "batch_size \<noteq> 0"
    using Cons.prems(1) by simp
  have next_i: "rest \<noteq> [] \<Longrightarrow> (i + 1) + int (length rest) = num_texts"
    using Cons.prems(3) by simp
  have lenL: "length ?L = length ?E"
    using Cons.prems(5) by simp
  have lenE: "int (length ?E) = i mod batch_size + 1"
    using Cons.prems(4) by simp
  have bound: "int (length ?E) \<le> batch_size"
    unfolding lenE using Cons.prems(1) pos_mod_bound [of batch_size i] by linarith
  show ?case
  proof (cases "(i + 1) mod batch_size = 0 \<or> i + 1 = num_texts")
    case True
    let ?f = "Some (open_ab file @ [F32 ?E, I32 ?L])"
    have step: "vectorize_loop vectorize num_texts batch_size i (pair # rest) embeddings all_labels file
                 = vectorize_loop vectorize num_texts batch_size (i + 1) rest [] [] ?f"
      using True bs by (simp add: pair Let_def np_save_def)
    show ?thesis
    proof (cases "rest = []")
      case True
      have "vectorize_loop vectorize num_texts batch_size i (pair # rest) embeddings all_labels file
              = Inr (Some (open_ab file @ store_layout [(?E, ?L)]), [])"
        unfolding step by (simp add: True store_layout_Cons store_layout_Nil)
      then show ?thesis
        using bound lenL by (intro exI [of _ "[(?E, ?L)]"]) (simp add: True pair)
    next
      case False
      with Cons.prems(3) have "i + 1 \<noteq> num_texts"
        by auto
      with True have full: "(i + 1) mod batch_size = 0"
        by simp
      then have lenE': "int (length ?E) = batch_size"
        unfolding lenE using int_mod_succ [OF Cons.prems(1), of i] pos_mod_sign [OF Cons.prems(1), of i]
        by (simp split: if_splits)
      have inv: "int (length ([] :: 'b list)) = (i + 1) mod batch_size"
        using full by simp
      from Cons.IH [OF Cons.prems(1) False next_i [OF False] inv, of "[]" ?f]
      obtain batches where b: "batches \<noteq> []"
        "vectorize_loop vectorize num_texts batch_size (i + 1) rest [] [] ?f
           = Inr (Some (open_ab ?f @ store_layout batches), [])"
        "concat (map fst batches) = map (\<lambda>(t, l). vectorize t) rest"
        "concat (map snd batches) = map snd rest"
        "\<forall>(es, ls) \<in> set (butlast batches). int (length es) = batch_size \<and> length ls = length es"
        "0 < length (fst (last batches))"
        "int (length (fst (last batches))) \<le> batch_size"
        "length (snd (last batches)) = length (fst (last batches))"
        by auto
      have "vectorize_loop vectorize num_texts batch_size i (pair # rest) embeddings all_labels file
              = Inr (Some (open_ab file @ store_layout ((?E, ?L) # batches)), [])"
        unfolding step b(2) by (simp add: open_ab_Some store_layout_Cons)
      moreover have "\<forall>(es, ls) \<in> set (butlast ((?E, ?L) # batches)).
                       int (length es) = batch_size \<and> length ls = length es"
        using b(1,5) lenE' lenL by simp
      moreover have "last ((?E, ?L) # batches) = last batches"
        using b(1) by simp
      ultimately show ?thesis
        using b(3,4,6,7,8)
        by (intro exI [of _ "(?E, ?L) # batches"]) (simp add: pair del: vectorize_loop.simps)
    qed
  next
    case False
    then have more: "rest \<noteq> []"
      using Cons.prems(3) by auto
    have step: "vectorize_loop vectorize num_texts batch_size i (pair # rest) embeddings all_labels file
                 = vectorize_loop vectorize num_texts batch_size (i + 1) rest ?E ?L file"
      using False bs by (simp add: pair Let_def)
    have inv: "int (length ?E) = (i + 1) mod batch_size"
      unfolding lenE using False int_mod_succ [OF Cons.prems(1), of i] by (simp split: if_splits)
    from Cons.IH [OF Cons.prems(1) more next_i [OF more] inv lenL, of "file"]
    obtain batches where b: "batches \<noteq> []"
      "vectorize_loop vectorize num_texts batch_size (i + 1) rest ?E ?L file
         = Inr (Some (open_ab file @ store_layout batches), [])"
      "concat (map fst batches) = ?E @ map (\<lambda>(t, l). vectorize t) rest"
      "concat (map snd batches) = ?L @ map snd rest"
      "\<forall>(es, ls) \<in> set (butlast batches). int (length es) = batch_size \<and> length ls = length es"
      "0 < length (fst (last batches))"
      "int (length (fst (last batches))) \<le> batch_size"
      "length (snd (last batches)) = length (fst (last batches))"
      by auto
    show ?thesis
      unfolding step using b by (intro exI [of _ batches]) (simp add: pair del: vectorize_loop.simps)
  qed
qed

text \<open>
  Claim C1 (amended). For every non-empty sequence of chunks with as many labels, every
  positive batch size and a fresh destination (missing or empty), \<open>vectorize_text\<close>
  leaves its buffer empty and writes a store of whole batches, each an embedding array
  followed by a label array of the same length: every batch but the last holds
  \<open>batch_size\<close> records, the last one between one and \<open>batch_size\<close>. On that
  store \<open>load_embeddings_and_labels\<close>, which takes no batch size, returns the embeddings
  of all chunks and all labels in the original order.
\<close>

theorem store_roundtrip:
  assumes "texts \<noteq> []" and "length texts = length labels" and "0 < batch_size"
    and "open_ab file = []"
  shows "\<exists>batches.
           vectorize_text vectorize texts labels file batch_size
             = Inr (Some (store_layout batches), [])
         \<and> (\<forall>(es, ls) \<in> set (butlast batches).
               int (length es) = batch_size \<and> length ls = length es)
         \<and> 0 < length (fst (last batches))
         \<and> int (length (fst (last batches))) \<le> batch_size
         \<and> length (snd (last batches)) = length (fst (last batches))
         \<and> load_embeddings_and_labels (Some (store_layout batches))
             = Inr (F32 (map vectorize texts), I32 labels)"
proof -
  have ne: "zip texts labels \<noteq> []"
    using assms(1,2) by (cases texts; cases labels) simp_all
  have len: "0 + int (length (zip texts labels)) = int (length texts)"
    using assms(2) by simp
  have inv: "int (length ([] :: 'b list)) = 0 mod batch_size"
    by simp
  have inv2: "length ([] :: 32 word list) = length ([] :: 'b list)"
    by simp
  from vectorize_loop_layout [OF assms(3) ne len inv inv2, of vectorize "file"]
  obtain batches where b: "batches \<noteq> []"
    "vectorize_loop vectorize (int (length texts)) batch_size 0 (zip texts labels) [] [] file
       = Inr (Some (open_ab file @ store_layout batches), [])"
    "concat (map fst batches) = map (\<lambda>(t, l). vectorize t) (zip texts labels)"
    "concat (map snd batches) = map snd (zip texts labels)"
    "\<forall>(es, ls) \<in> set (butlast batches). int (length es) = batch_size \<and> length ls = length es"
    "0 < length (fst (last batches))"
    "int (length (fst (last batches))) \<le> batch_size"
    "length (snd (last batches)) = length (fst (last batches))"
    by auto
  have "map (\<lambda>(t, l). vectorize t) (zip texts labels) = map vectorize (map fst (zip texts labels))"
    by (simp add: case_prod_beta comp_def)
  with assms(2) have e: "concat (map fst batches) = map vectorize texts"
    using b(3) by simp
  from assms(2) have l: "concat (map snd batches) = labels"
    using b(4) by simp
  have w: "vectorize_text vectorize texts labels file batch_size
             = Inr (Some (store_layout batches), [])"
    using b(2) assms(4) by (simp add: vectorize_text_def Let_def)
  have "load_embeddings_and_labels (Some (store_layout batches @ []))
          = Inr (F32 (concat (map fst batches)), I32 (concat (map snd batches)))"
    using b(1) by (intro load_layout) simp_all
  then have r: "load_embeddings_and_labels (Some (store_layout batches))
          = Inr (F32 (map vectorize texts), I32 labels)"
    by (simp add: e l)
  show ?thesis
    using w r b(5,6,7,8) by (intro exI [of _ batches]) simp
qed

lemmas store_eval = vectorize_text_def load_embeddings_and_labels_def open_ab_def np_save_def
  load_loop_pair load_loop_short Let_def

text \<open>
  Claim C1, as stated for every sequence, fails for the empty one: the writer never
  opens the destination, so a destination that did not exist still does not exist and
  reading it raises \<open>FileNotFoundError\<close>, and an existing empty destination stays empty
  and reading it raises \<open>ValueError\<close>.
\<close>

theorem store_roundtrip_counterexample:
  "vectorize_text (map real_of_int) [] [] None 100 = Inr (None, [])
   \<and> load_embeddings_and_labels (None :: real list store_file) = Inl FileNotFoundError
   \<and> vectorize_text (map real_of_int) [] [] (Some []) 100 = Inr (Some [], [])
   \<and> load_embeddings_and_labels (Some [] :: real list store_file) = Inl ValueError"
  by (simp add: store_eval)

text \<open>
  Three chunks written with a batch size of 2: a batch of two and a batch of one.
\<close>

theorem store_roundtrip_witness:
  "[[101, 7, 102], [101, 8, 102], [101, 9, 102 :: int]] \<noteq> []
   \<and> length [[101, 7, 102], [101, 8, 102], [101, 9, 102 :: int]] = length [1, 0, 1 :: 32 word]
   \<and> (0 :: int) < 2
   \<and> open_ab (None :: real list store_file) = []
   \<and> vectorize_text (map real_of_int) [[101, 7, 102], [101, 8, 102], [101, 9, 102]] [1, 0, 1] None 2
       = Inr (Some [F32 [[101, 7, 102], [101, 8, 102]], I32 [1, 0], F32 [[101, 9, 102]], I32 [1]], [])
   \<and> load_embeddings_and_labels
         (Some [F32 [[101, 7, 102], [101, 8, 102]], I32 [1, 0], F32 [[101, 9, 102 :: real]], I32 [1]])
       = Inr (F32 [[101, 7, 102], [101, 8, 102], [101, 9, 102]], I32 [1, 0, 1])"
proof -
  have h1: "[[101, 7, 102], [101, 8, 102], [101, 9, 102 :: int]] \<noteq> []" by simp
  have h2: "length [[101, 7, 102], [101, 8, 102], [101, 9, 102 :: int]] = length [1, 0, 1 :: 32 word]"
    by simp
  have h3: "(0 :: int) < 2" by simp
  have h4: "open_ab (None :: real list store_file) = []" by (simp add: open_ab_def)
  show ?thesis
    using h1 h2 h3 h4 store_roundtrip [OF h1 h2 h3 h4, of "map real_of_int"]
    by (simp add: store_eval)
qed

text \<open>
  Claim C6, as stated, fails: a store that ends in an embedding block without its label
  block, or in a label block without its embedding block, is read without any error;
  the unpaired block is dropped.
\<close>

theorem load_orphan_counterexample:
  "load_embeddings_and_labels (Some [F32 [[0.5 :: real]], I32 [1], F32 [[0.25]]])
     = Inr (F32 [[0.5]], I32 [1])
   \<and> load_embeddings_and_labels (Some [F32 [[0.5 :: real]], I32 [1], F32 [[0.25]], I32 [0], I32 [1]])
     = Inr (F32 [[0.5], [0.25]], I32 [1, 0])"
  by (simp add: store_eval)

text \<open>
  Claim C6 (amended). On a store of at least one batch-pair, each pair holding as many
  labels as embeddings, \<open>load_embeddings_and_labels\<close> returns the concatenated embeddings
  and the concatenated labels, both of length \<open>N\<close>, the total number of records. A
  trailing unpaired block is dropped without notice, and the result is that of the
  store without it: after at least one batch-pair nothing is raised and the arrays of
  the complete pairs are returned; for a store of the unpaired block alone it is the
  \<open>ValueError\<close> that \<open>np.concatenate\<close> raises for the store without any pair.
\<close>

theorem load_drops_orphan:
  fixes batches :: "('e list \<times> 32 word list) list"
  assumes "batches \<noteq> []" and "\<forall>(es, ls) \<in> set batches. length es = length ls"
  shows "load_embeddings_and_labels (Some (store_layout batches))
           = Inr (F32 (concat (map fst batches)), I32 (concat (map snd batches)))
       \<and> length (concat (map fst batches)) = sum_list (map (\<lambda>(es, ls). length es) batches)
       \<and> length (concat (map snd batches)) = sum_list (map (\<lambda>(es, ls). length es) batches)
       \<and> load_embeddings_and_labels (Some (store_layout batches @ [orphan]))
           = load_embeddings_and_labels (Some (store_layout batches))
       \<and> load_embeddings_and_labels (Some [orphan]) = Inl ValueError
       \<and> load_embeddings_and_labels (Some [orphan])
           = load_embeddings_and_labels (Some (store_layout []))"
proof -
  have full: "load_embeddings_and_labels (Some (store_layout batches))
           = Inr (F32 (concat (map fst batches)), I32 (concat (map snd batches)))"
    using load_layout [OF assms(1), of "[]"] by simp
  have part: "load_embeddings_and_labels (Some (store_layout batches @ [orphan]))
           = Inr (F32 (concat (map fst batches)), I32 (concat (map snd batches)))"
    using assms(1) by (intro load_layout) simp_all
  have n1: "length (concat (map fst batches)) = sum_list (map (\<lambda>(es, ls). length es) batches)"
    by (simp add: length_concat comp_def case_prod_unfold)
  have "map (\<lambda>p. length (snd p)) batches = map (\<lambda>p. length (fst p)) batches"
    using assms(2) by (intro map_cong) auto
  then have "sum_list (map (\<lambda>p. length (snd p)) batches) = sum_list (map (\<lambda>p. length (fst p)) batches)"
    by (simp only:)
  then have n2: "length (concat (map snd batches)) = sum_list (map (\<lambda>(es, ls). length es) batches)"
    by (simp add: length_concat comp_def case_prod_unfold)
  have only: "load_embeddings_and_labels (Some [orphan]) = Inl ValueError"
    by (simp add: store_eval)
  have none: "load_embeddings_and_labels (Some (store_layout [])) = (Inl ValueError :: py_error + ('e ndarray \<times> 'e ndarray))"
    by (simp add: store_eval store_layout_Nil)
  show ?thesis
    using full part n1 n2 only none by simp
qed

text \<open>
  Two batch-pairs of one and two records, read with and without a trailing block, and
  a store of one unpaired block.
\<close>

theorem load_drops_orphan_witness:
  "[([[0.5 :: real]], [1 :: 32 word]), ([[0.25], [0.75]], [0, 1])] \<noteq> []
   \<and> length [[0.5 :: real]] = length [1 :: 32 word]
   \<and> length [[0.25 :: real], [0.75]] = length [0, 1 :: 32 word]
   \<and> store_layout [([[0.5 :: real]], [1]), ([[0.25], [0.75]], [0, 1])]
       = [F32 [[0.5]], I32 [1], F32 [[0.25], [0.75]], I32 [0, 1]]
   \<and> load_embeddings_and_labels (Some [F32 [[0.5 :: real]], I32 [1], F32 [[0.25], [0.75]], I32 [0, 1]])
       = Inr (F32 [[0.5], [0.25], [0.75]], I32 [1, 0, 1])
   \<and> load_embeddings_and_labels
         (Some [F32 [[0.5 :: real]], I32 [1], F32 [[0.25], [0.75]], I32 [0, 1], F32 [[1]]])
       = Inr (F32 [[0.5], [0.25], [0.75]], I32 [1, 0, 1])
   \<and> load_embeddings_and_labels (Some [F32 [[1 :: real]]]) = Inl ValueError"
proof -
  have h1: "[([[0.5 :: real]], [1 :: 32 word]), ([[0.25], [0.75]], [0, 1])] \<noteq> []" by simp
  have h2: "\<forall>(es, ls) \<in> set [([[0.5 :: real]], [1 :: 32 word]), ([[0.25], [0.75]], [0, 1])].
              length es = length ls"
    by simp
  show ?thesis
    using h1 load_drops_orphan [OF h1 h2, of "F32 [[1]]"]
    by (simp add: store_eval store_layout_def)
qed

text \<open>
  Claim C10. On a store without any batch-pair (an empty file, or a file holding a
  single unpaired block) the reader collects no arrays, and \<open>np.concatenate\<close> of the
  empty list raises \<open>ValueError\<close>: no empty arrays are returned.
\<close>

theorem load_empty_store_raises:
  "load_embeddings_and_labels (Some []) = Inl ValueError
   \<and> load_embeddings_and_labels (Some [a]) = Inl ValueError"
  by (simp add: store_eval)

end
